theory Spec2Isabelle
  imports Main "HOL-Library.Word" "HOL-Library.Sublist"
begin

section \<open>Values of the program\<close>

text \<open>
  A value of the interface type \<^verbatim>\<open>io.Closer\<close> is either the nil interface value or a
  resource with a \<^verbatim>\<open>Close\<close> method; \<open>None\<close> stands for nil.
\<close>

type_synonym 'r closer = "'r option"

text \<open>
  Error values: the package variable \<^verbatim>\<open>ErrPoolClosed\<close>, the error built by
  \<^verbatim>\<open>errors.New("Invalid size value: too small")\<close> in \<^verbatim>\<open>New\<close>, and whatever else a factory
  returns. A Go \<^verbatim>\<open>error\<close> result is an \<open>option\<close>, \<open>None\<close> for nil.
\<close>

datatype 'e error = ErrPoolClosed | ErrInvalidSize | ErrOther 'e

text \<open>
  What stops a call from returning: the run-time panics the operations of the package can
  raise, and waiting forever (on a mutex that is held, or on a receive from an open, empty
  channel when no other goroutine runs).
\<close>

datatype failure =
    PanicNilDereference
  | PanicSendOnClosedChannel
  | PanicCloseOfClosedChannel
  | PanicMakechanSizeOutOfRange
  | BlockedForever

text \<open>
  The observable effects of the package, in the order they happen: a line written with
  \<^verbatim>\<open>log.Println\<close>, a call of the factory, a call of the \<^verbatim>\<open>Close\<close> method of a resource.
\<close>

datatype 'r event = Log string | FactoryCall | CloseCall 'r

section \<open>Buffered channels, as one goroutine sees them\<close>

record 'a chan =
  buf :: "'a list"
  cap :: nat
  chan_closed :: bool

text \<open>
  \<^verbatim>\<open>make(chan T, n)\<close> with \<open>n\<close> of type \<^verbatim>\<open>uint\<close>. The run time converts \<open>n\<close> to \<^verbatim>\<open>int\<close> and panics
  with \<^verbatim>\<open>makechan: size out of range\<close> when the result is negative, or when \<open>n\<close> values of
  the element type are more than its allocator admits. That bound is a constant of the Go
  run time, not of this package, and depends on the platform and on the element type: \<open>lim\<close>
  is the largest number of elements it admits. Past this check the allocation is taken to
  succeed.
\<close>

definition make_chan :: "nat \<Rightarrow> 'b::len word \<Rightarrow> failure + 'a chan" where
  "make_chan lim n =
     (if sint n < 0 \<or> lim < unat n then Inl PanicMakechanSizeOutOfRange
      else Inr \<lparr>buf = [], cap = unat n, chan_closed = False\<rparr>)"

text \<open>
  \<^verbatim>\<open>select { case r, ok := <-c: ... default: ... }\<close>: the receive is ready when the buffer
  holds a value, and also when the channel is closed and empty, where it yields the zero
  value and \<^verbatim>\<open>ok = false\<close>; otherwise the default branch runs (\<open>None\<close>).
\<close>

definition select_recv :: "'a \<Rightarrow> 'a chan \<Rightarrow> ('a \<times> bool) option \<times> 'a chan" where
  "select_recv zero c =
     (case buf c of
        x # xs \<Rightarrow> (Some (x, True), c\<lparr>buf := xs\<rparr>)
      | [] \<Rightarrow> if chan_closed c then (Some (zero, False), c) else (None, c))"

text \<open>
  \<^verbatim>\<open>select { case c <- v: ... default: ... }\<close>: a send on a closed channel panics; it is
  ready when the buffer has room (\<open>True\<close>); otherwise the default branch runs (\<open>False\<close>).
\<close>

definition select_send :: "'a chan \<Rightarrow> 'a \<Rightarrow> failure + (bool \<times> 'a chan)" where
  "select_send c v =
     (if chan_closed c then Inl PanicSendOnClosedChannel
      else if length (buf c) < cap c then Inr (True, c\<lparr>buf := buf c @ [v]\<rparr>)
      else Inr (False, c))"

text \<open>\<^verbatim>\<open>close(c)\<close>.\<close>

definition close_chan :: "'a chan \<Rightarrow> failure + 'a chan" where
  "close_chan c =
     (if chan_closed c then Inl PanicCloseOfClosedChannel else Inr (c\<lparr>chan_closed := True\<rparr>))"

section \<open>The pool\<close>

text \<open>
  The factory is a Go function with effects of its own; it acts on a world \<open>'w\<close> and
  returns its pair of results. It is a function that returns: a nil function value, which
  \<^verbatim>\<open>New\<close> would store as it is, is not among the values of this type.
\<close>

type_synonym ('r, 'e, 'w) factory_fn = "'w \<Rightarrow> ('r closer \<times> 'e error option) \<times> 'w"

text \<open>The struct \<^verbatim>\<open>Pool\<close>; \<open>m\<close> is true while the mutex is held.\<close>

record ('r, 'e, 'w) Pool =
  m :: bool
  resources :: "'r closer chan"
  factory :: "('r, 'e, 'w) factory_fn"
  closed :: bool

text \<open>The pool behind the pointer, the factory's world and the effects so far.\<close>

record ('r, 'e, 'w) state =
  pool :: "('r, 'e, 'w) Pool"
  ext :: 'w
  events :: "'r event list"

text \<open>
  \<^verbatim>\<open>New(fn, size)\<close>, with \<^verbatim>\<open>size uint\<close> a machine word of the platform's width, and \<open>lim\<close> the
  bound of \<^verbatim>\<open>make\<close> for a channel of \<^verbatim>\<open>io.Closer\<close>. When \<^verbatim>\<open>New\<close> returns, the result is Go's pair:
  the pointer (\<open>None\<close> for nil) and the error. A panic in \<^verbatim>\<open>make\<close> leaves \<^verbatim>\<open>New\<close> with it.
\<close>

definition New ::
  "nat \<Rightarrow> ('r, 'e, 'w) factory_fn \<Rightarrow> 'a::len word \<Rightarrow>
   failure + (('r, 'e, 'w) Pool option \<times> 'e error option)" where
  "New lim fn sz =
     (if sz \<le> 0 then Inr (None, Some ErrInvalidSize)
      else case make_chan lim sz of
             Inl f \<Rightarrow> Inl f
           | Inr c \<Rightarrow>
               Inr (Some \<lparr>m = False, resources = c, factory = fn, closed = False\<rparr>, None))"

text \<open>The state in which a program holds a fresh pool.\<close>

definition start :: "('r, 'e, 'w) Pool \<Rightarrow> 'w \<Rightarrow> ('r, 'e, 'w) state" where
  "start p w = \<lparr>pool = p, ext = w, events = []\<rparr>"

text \<open>\<^verbatim>\<open>p.m.Lock()\<close> and the deferred \<^verbatim>\<open>p.m.Unlock()\<close>.\<close>

definition Lock :: "('r, 'e, 'w) state \<Rightarrow> failure + ('r, 'e, 'w) state" where
  "Lock s = (if m (pool s) then Inl BlockedForever else Inr (s\<lparr>pool := (pool s)\<lparr>m := True\<rparr>\<rparr>))"

definition Unlock :: "('r, 'e, 'w) state \<Rightarrow> ('r, 'e, 'w) state" where
  "Unlock s = s\<lparr>pool := (pool s)\<lparr>m := False\<rparr>\<rparr>"

text \<open>\<^verbatim>\<open>r.Close()\<close> on an interface value; the error it returns is dropped by every caller.\<close>

definition call_Close :: "'r closer \<Rightarrow> 'r event list \<Rightarrow> failure + 'r event list" where
  "call_Close r evs =
     (case r of None \<Rightarrow> Inl PanicNilDereference | Some x \<Rightarrow> Inr (evs @ [CloseCall x]))"

text \<open>\<^verbatim>\<open>Acquire\<close>: it takes no lock and reads no field but the channel and the factory.\<close>

definition Acquire ::
  "('r, 'e, 'w) state \<Rightarrow> ('r closer \<times> 'e error option) \<times> ('r, 'e, 'w) state" where
  "Acquire s =
     (case select_recv None (resources (pool s)) of
        (Some (r, ok), c) \<Rightarrow>
          (let s1 = s\<lparr>pool := (pool s)\<lparr>resources := c\<rparr>\<rparr>
           in if \<not> ok then ((None, Some ErrPoolClosed), s1) else ((r, None), s1))
      | (None, c) \<Rightarrow>
          (let s1 = s\<lparr>events := events s @ [Log ''Acquire: New resource'']\<rparr>;
               (res, w) = factory (pool s1) (ext s1)
           in (res, s1\<lparr>ext := w, events := events s1 @ [FactoryCall]\<rparr>)))"

text \<open>\<^verbatim>\<open>Release\<close>; the deferred unlock runs on every exit, a panic included.\<close>

definition Release ::
  "'r closer \<Rightarrow> ('r, 'e, 'w) state \<Rightarrow> (failure + unit) \<times> ('r, 'e, 'w) state" where
  "Release r s =
     (case Lock s of
        Inl f \<Rightarrow> (Inl f, s)
      | Inr s1 \<Rightarrow>
          if closed (pool s1) then
            (case call_Close r (events s1) of
               Inl f \<Rightarrow> (Inl f, Unlock s1)
             | Inr evs \<Rightarrow> (Inr (), Unlock (s1\<lparr>events := evs\<rparr>)))
          else
            (case select_send (resources (pool s1)) r of
               Inl f \<Rightarrow> (Inl f, Unlock s1)
             | Inr (True, c) \<Rightarrow>
                 (Inr (), Unlock (s1\<lparr>pool := (pool s1)\<lparr>resources := c\<rparr>,
                                      events := events s1 @ [Log ''Release: In queue'']\<rparr>))
             | Inr (False, c) \<Rightarrow>
                 (let s2 = s1\<lparr>events := events s1 @ [Log ''Release: Closing'']\<rparr>
                  in case call_Close r (events s2) of
                       Inl f \<Rightarrow> (Inl f, Unlock s2)
                     | Inr evs \<Rightarrow> (Inr (), Unlock (s2\<lparr>events := evs\<rparr>)))))"

text \<open>
  \<^verbatim>\<open>for r := range p.resources { r.Close() }\<close>: each round receives one value and closes
  it; the loop ends when the channel is closed and empty, and waits forever on an open,
  empty channel.
\<close>

function range_Close ::
  "'r closer chan \<Rightarrow> 'r event list \<Rightarrow> (failure + unit) \<times> 'r closer chan \<times> 'r event list" where
  "range_Close c evs =
     (case buf c of
        [] \<Rightarrow> if chan_closed c then (Inr (), c, evs) else (Inl BlockedForever, c, evs)
      | r # rs \<Rightarrow>
          (case call_Close r evs of
             Inl f \<Rightarrow> (Inl f, c\<lparr>buf := rs\<rparr>, evs)
           | Inr evs' \<Rightarrow> range_Close (c\<lparr>buf := rs\<rparr>) evs'))"
  by pat_completeness auto
termination
  by (relation "measure (\<lambda>(c, evs). length (buf c))") auto

declare range_Close.simps [simp del]

text \<open>\<^verbatim>\<open>Close\<close>.\<close>

definition Close :: "('r, 'e, 'w) state \<Rightarrow> (failure + unit) \<times> ('r, 'e, 'w) state" where
  "Close s =
     (case Lock s of
        Inl f \<Rightarrow> (Inl f, s)
      | Inr s1 \<Rightarrow>
          if closed (pool s1) then
            (Inr (), Unlock (s1\<lparr>events := events s1 @ [Log ''Pool already closed.'']\<rparr>))
          else
            (let s2 = s1\<lparr>events := events s1 @ [Log ''Closing pool..''],
                         pool := (pool s1)\<lparr>closed := True\<rparr>\<rparr>
             in case close_chan (resources (pool s2)) of
                  Inl f \<Rightarrow> (Inl f, Unlock s2)
                | Inr c \<Rightarrow>
                    (case range_Close c (events s2) of
                       (res, c', evs) \<Rightarrow>
                         (res, Unlock (s2\<lparr>pool := (pool s2)\<lparr>resources := c'\<rparr>,
                                          events := evs\<rparr>)))))"

section \<open>Sequential executions\<close>

datatype 'r op = OpAcquire | OpRelease "'r closer" | OpClose

fun step :: "'r op \<Rightarrow> ('r, 'e, 'w) state \<Rightarrow> ('r, 'e, 'w) state" where
  "step OpAcquire s = snd (Acquire s)"
| "step (OpRelease r) s = snd (Release r s)"
| "step OpClose s = snd (Close s)"

definition exec :: "'r op list \<Rightarrow> ('r, 'e, 'w) state \<Rightarrow> ('r, 'e, 'w) state" where
  "exec ops s = fold step ops s"

section \<open>The states of a sequential program\<close>

text \<open>
  Between two calls of a sequential program the mutex is free, the channel is closed
  exactly when the flag says so, and the buffer is within its capacity.
\<close>

definition pool_inv :: "('r, 'e, 'w) state \<Rightarrow> bool" where
  "pool_inv s \<longleftrightarrow>
     \<not> m (pool s) \<and>
     chan_closed (resources (pool s)) = closed (pool s) \<and>
     length (buf (resources (pool s))) \<le> cap (resources (pool s)) \<and>
     0 < cap (resources (pool s))"

text \<open>A pool in use: the mutex is free, nothing is closed.\<close>

definition is_open :: "('r, 'e, 'w) state \<Rightarrow> bool" where
  "is_open s \<longleftrightarrow>
     \<not> m (pool s) \<and> \<not> closed (pool s) \<and> \<not> chan_closed (resources (pool s))"

text \<open>A pool after a completed \<^verbatim>\<open>Close\<close>: flag set, channel closed, buffer empty.\<close>

definition drained :: "('r, 'e, 'w) state \<Rightarrow> bool" where
  "drained s \<longleftrightarrow>
     \<not> m (pool s) \<and> closed (pool s) \<and> chan_closed (resources (pool s)) \<and>
     buf (resources (pool s)) = []"

text \<open>
  A state that calls returning normally can reach: beyond the invariant, a closed pool has
  an empty buffer. (A \<^verbatim>\<open>Close\<close> that panics on a nil in the buffer leaves a closed pool with
  the values behind the nil still buffered.)
\<close>

definition settled :: "('r, 'e, 'w) state \<Rightarrow> bool" where
  "settled s \<longleftrightarrow> pool_inv s \<and> (closed (pool s) \<longrightarrow> buf (resources (pool s)) = [])"

section \<open>A caller\<close>

text \<open>
  The factory of the example in the README: it adds one to the counter \<^verbatim>\<open>idCounter\<close>
  (an \<^verbatim>\<open>int32\<close>) and returns a connection carrying the new value, with a nil error. The
  world of this factory is the counter; the line it logs is not kept.
\<close>

definition createConnection :: "(32 word, string, 32 word) factory_fn" where
  "createConnection idCounter = ((Some (idCounter + 1), None), idCounter + 1)"

text \<open>
  The pool that \<^verbatim>\<open>pool.New(createConnection, pooledResources)\<close> builds there. On linux/amd64
  the allocator serves at most \<open>2 ^ 48\<close> bytes and an interface value takes 16, so the bound of
  \<^verbatim>\<open>make\<close> on the elements lies just below \<open>2 ^ 44\<close>; the examples take \<open>2 ^ 44\<close>.
\<close>

definition chan_limit_64 :: nat where
  "chan_limit_64 = 2 ^ 44"

definition pooledResources :: "64 word" where
  "pooledResources = 2"

definition example_pool :: "(32 word, string, 32 word) Pool" where
  "example_pool =
     \<lparr>m = False, resources = \<lparr>buf = [], cap = 2, chan_closed = False\<rparr>,
      factory = createConnection, closed = False\<rparr>"

text \<open>
  States of that program: the fresh pool with the counter at zero; the pool after two
  connections were acquired and released, its buffer full; that pool after \<^verbatim>\<open>Close\<close>; and a
  fresh pool into which nil and then a connection were released.
\<close>

definition fresh :: "(32 word, string, 32 word) state" where
  "fresh = start example_pool 0"

definition busy :: "(32 word, string, 32 word) state" where
  "busy = exec [OpAcquire, OpAcquire, OpRelease (Some 1), OpRelease (Some 2)] fresh"

definition shut :: "(32 word, string, 32 word) state" where
  "shut = snd (Close busy)"

definition full1 :: "(32 word, string, 32 word) state" where
  "full1 = exec [OpRelease None, OpRelease (Some 7)] fresh"

text \<open>The same pool after two acquisitions and one release: one place is free.\<close>

definition half :: "(32 word, string, 32 word) state" where
  "half = exec [OpAcquire, OpAcquire, OpRelease (Some 1)] fresh"

section \<open>What each operation does, case by case\<close>

lemma unlocked_id: "\<not> m p \<Longrightarrow> p\<lparr>m := False\<rparr> = p"
  by (cases p) simp

lemma Acquire_buffered:
  "buf (resources (pool s)) = x # xs \<Longrightarrow>
   Acquire s = ((x, None), s\<lparr>pool := (pool s)\<lparr>resources := (resources (pool s))\<lparr>buf := xs\<rparr>\<rparr>\<rparr>)"
  by (simp add: Acquire_def select_recv_def)

lemma Acquire_drained:
  "buf (resources (pool s)) = [] \<Longrightarrow> chan_closed (resources (pool s)) \<Longrightarrow>
   Acquire s = ((None, Some ErrPoolClosed), s)"
  by (simp add: Acquire_def select_recv_def)

lemma Acquire_empty:
  "buf (resources (pool s)) = [] \<Longrightarrow> \<not> chan_closed (resources (pool s)) \<Longrightarrow>
   Acquire s = (fst (factory (pool s) (ext s)),
                s\<lparr>ext := snd (factory (pool s) (ext s)),
                  events := events s @ [Log ''Acquire: New resource'', FactoryCall]\<rparr>)"
  by (simp add: Acquire_def select_recv_def split: prod.splits)

lemma Release_locked: "m (pool s) \<Longrightarrow> Release r s = (Inl BlockedForever, s)"
  by (simp add: Release_def Lock_def)

lemma Release_closed_nil:
  "\<not> m (pool s) \<Longrightarrow> closed (pool s) \<Longrightarrow> Release None s = (Inl PanicNilDereference, s)"
  by (simp add: Release_def Lock_def Unlock_def call_Close_def unlocked_id)

lemma Release_closed_res:
  "\<not> m (pool s) \<Longrightarrow> closed (pool s) \<Longrightarrow>
   Release (Some x) s = (Inr (), s\<lparr>events := events s @ [CloseCall x]\<rparr>)"
  by (simp add: Release_def Lock_def Unlock_def call_Close_def unlocked_id)

lemma Release_room:
  "\<not> m (pool s) \<Longrightarrow> \<not> closed (pool s) \<Longrightarrow> \<not> chan_closed (resources (pool s)) \<Longrightarrow>
   length (buf (resources (pool s))) < cap (resources (pool s)) \<Longrightarrow>
   Release r s =
     (Inr (), s\<lparr>pool := (pool s)\<lparr>resources :=
                     (resources (pool s))\<lparr>buf := buf (resources (pool s)) @ [r]\<rparr>\<rparr>,
                 events := events s @ [Log ''Release: In queue'']\<rparr>)"
  by (cases s; cases "pool s") (simp add: Release_def Lock_def Unlock_def select_send_def)

lemma Release_full_nil:
  "\<not> m (pool s) \<Longrightarrow> \<not> closed (pool s) \<Longrightarrow> \<not> chan_closed (resources (pool s)) \<Longrightarrow>
   \<not> length (buf (resources (pool s))) < cap (resources (pool s)) \<Longrightarrow>
   Release None s =
     (Inl PanicNilDereference, s\<lparr>events := events s @ [Log ''Release: Closing'']\<rparr>)"
  by (cases s; cases "pool s")
     (simp add: Release_def Lock_def Unlock_def select_send_def call_Close_def)

lemma Release_full_res:
  "\<not> m (pool s) \<Longrightarrow> \<not> closed (pool s) \<Longrightarrow> \<not> chan_closed (resources (pool s)) \<Longrightarrow>
   \<not> length (buf (resources (pool s))) < cap (resources (pool s)) \<Longrightarrow>
   Release (Some x) s =
     (Inr (), s\<lparr>events := events s @ [Log ''Release: Closing'', CloseCall x]\<rparr>)"
  by (cases s; cases "pool s")
     (simp add: Release_def Lock_def Unlock_def select_send_def call_Close_def)

lemma Close_locked: "m (pool s) \<Longrightarrow> Close s = (Inl BlockedForever, s)"
  by (simp add: Close_def Lock_def)

lemma Close_closed:
  "\<not> m (pool s) \<Longrightarrow> closed (pool s) \<Longrightarrow>
   Close s = (Inr (), s\<lparr>events := events s @ [Log ''Pool already closed.'']\<rparr>)"
  by (cases s; cases "pool s") (simp add: Close_def Lock_def Unlock_def)

text \<open>The loop of \<^verbatim>\<open>Close\<close> on a closed channel: it closes the resources in the order of
  the buffer, and stops with a panic at the first nil.\<close>

lemma range_Close_resources:
  "chan_closed c \<Longrightarrow> buf c = map Some xs \<Longrightarrow>
   range_Close c evs = (Inr (), c\<lparr>buf := []\<rparr>, evs @ map CloseCall xs)"
proof (induction xs arbitrary: c evs)
  case Nil
  then show ?case by (subst range_Close.simps) (cases c, simp)
next
  case (Cons x xs)
  then show ?case by (subst range_Close.simps) (simp add: call_Close_def)
qed

lemma range_Close_nil:
  "buf c = map Some xs @ None # rest \<Longrightarrow>
   range_Close c evs = (Inl PanicNilDereference, c\<lparr>buf := rest\<rparr>, evs @ map CloseCall xs)"
proof (induction xs arbitrary: c evs)
  case Nil
  then show ?case by (subst range_Close.simps) (simp add: call_Close_def)
next
  case (Cons x xs)
  then show ?case by (subst range_Close.simps) (simp add: call_Close_def)
qed

lemma Close_open_resources:
  "\<not> m (pool s) \<Longrightarrow> \<not> closed (pool s) \<Longrightarrow> \<not> chan_closed (resources (pool s)) \<Longrightarrow>
   buf (resources (pool s)) = map Some xs \<Longrightarrow>
   Close s =
     (Inr (), s\<lparr>pool := (pool s)\<lparr>closed := True,
                     resources := (resources (pool s))\<lparr>buf := [], chan_closed := True\<rparr>\<rparr>,
                 events := events s @ Log ''Closing pool..'' # map CloseCall xs\<rparr>)"
  by (cases s; cases "pool s")
     (simp add: Close_def Lock_def Unlock_def close_chan_def
        range_Close_resources [where xs = xs])

lemma Close_open_nil:
  "\<not> m (pool s) \<Longrightarrow> \<not> closed (pool s) \<Longrightarrow> \<not> chan_closed (resources (pool s)) \<Longrightarrow>
   buf (resources (pool s)) = map Some xs @ None # rest \<Longrightarrow>
   Close s =
     (Inl PanicNilDereference,
      s\<lparr>pool := (pool s)\<lparr>closed := True,
             resources := (resources (pool s))\<lparr>buf := rest, chan_closed := True\<rparr>\<rparr>,
         events := events s @ Log ''Closing pool..'' # map CloseCall xs\<rparr>)"
  by (cases s; cases "pool s")
     (simp add: Close_def Lock_def Unlock_def close_chan_def
        range_Close_nil [where xs = xs and rest = rest])

section \<open>The invariant holds after every call\<close>

lemma exec_Nil: "exec [] s = s"
  by (simp add: exec_def)

lemma exec_Cons: "exec (a # ops) s = exec ops (step a s)"
  by (simp add: exec_def)

lemma closers_split:
  fixes ys :: "'r closer list"
  shows "(\<exists>xs. ys = map Some xs) \<or> (\<exists>xs rest. ys = map Some xs @ None # rest)"
proof (induction ys)
  case Nil
  then show ?case by simp
next
  case (Cons y ys)
  show ?case
  proof (cases y)
    case None
    then have "y # ys = map Some [] @ None # ys" by simp
    then have "\<exists>xs rest. y # ys = map Some xs @ None # rest" by (intro exI)
    then show ?thesis by (rule disjI2)
  next
    case (Some a)
    from Cons show ?thesis
    proof
      assume "\<exists>xs. ys = map Some xs"
      then obtain xs where "ys = map Some xs" ..
      with Some have "y # ys = map Some (a # xs)" by simp
      then have "\<exists>xs. y # ys = map Some xs" by (rule exI)
      then show ?thesis by (rule disjI1)
    next
      assume "\<exists>xs rest. ys = map Some xs @ None # rest"
      then obtain xs rest where "ys = map Some xs @ None # rest" by blast
      with Some have "y # ys = map Some (a # xs) @ None # rest" by simp
      then have "\<exists>xs rest. y # ys = map Some xs @ None # rest" by (intro exI)
      then show ?thesis by (rule disjI2)
    qed
  qed
qed

lemma range_Close_open:
  "\<not> chan_closed c \<Longrightarrow> buf c = map Some xs \<Longrightarrow>
   range_Close c evs = (Inl BlockedForever, c\<lparr>buf := []\<rparr>, evs @ map CloseCall xs)"
proof (induction xs arbitrary: c evs)
  case Nil
  then show ?case by (subst range_Close.simps) (cases c, simp)
next
  case (Cons x xs)
  then show ?case by (subst range_Close.simps) (simp add: call_Close_def)
qed

lemma Acquire_inv: "pool_inv s \<Longrightarrow> pool_inv (snd (Acquire s))"
proof (cases "buf (resources (pool s))")
  case Nil
  assume "pool_inv s"
  with Nil show ?thesis
    by (cases "chan_closed (resources (pool s))")
       (simp_all add: Acquire_drained Acquire_empty pool_inv_def)
next
  case (Cons x xs)
  assume "pool_inv s"
  with Cons show ?thesis by (simp add: Acquire_buffered pool_inv_def)
qed

lemma Release_inv:
  assumes "pool_inv s"
  shows "pool_inv (snd (Release r s))"
proof (cases "closed (pool s)")
  case True
  with assms show ?thesis
    by (cases r) (simp_all add: Release_closed_nil Release_closed_res pool_inv_def)
next
  case False
  show ?thesis
  proof (cases "length (buf (resources (pool s))) < cap (resources (pool s))")
    case True
    with assms False show ?thesis by (simp add: Release_room pool_inv_def)
  next
    case False
    with assms \<open>\<not> closed (pool s)\<close> show ?thesis
      by (cases r) (simp_all add: Release_full_nil Release_full_res pool_inv_def)
  qed
qed

lemma Close_inv:
  assumes "pool_inv s"
  shows "pool_inv (snd (Close s))"
proof (cases "closed (pool s)")
  case True
  with assms show ?thesis by (simp add: Close_closed pool_inv_def)
next
  case False
  from closers_split [of "buf (resources (pool s))"] show ?thesis
  proof (elim disjE exE)
    fix xs
    assume "buf (resources (pool s)) = map Some xs"
    with assms False show ?thesis by (simp add: Close_open_resources pool_inv_def)
  next
    fix xs rest
    assume "buf (resources (pool s)) = map Some xs @ None # rest"
    with assms False show ?thesis by (simp add: Close_open_nil pool_inv_def)
  qed
qed

lemma step_inv: "pool_inv s \<Longrightarrow> pool_inv (step a s)"
  by (cases a) (simp_all add: Acquire_inv Release_inv Close_inv)

lemma exec_inv: "pool_inv s \<Longrightarrow> pool_inv (exec ops s)"
  by (induction ops arbitrary: s) (simp_all add: exec_Nil exec_Cons step_inv)


lemma New_inv: "New lim fn sz = Inr (Some p, e) \<Longrightarrow> pool_inv (start p w)"
  by (auto simp: New_def make_chan_def start_def pool_inv_def unat_gt_0 split: if_splits)

lemma Close_marks:
  "\<not> m (pool s) \<Longrightarrow> closed (pool (snd (Close s))) \<and> \<not> m (pool (snd (Close s)))"
  by (auto simp: Close_def Lock_def Unlock_def Let_def split: sum.splits prod.splits)

section \<open>What no call changes\<close>

lemma range_Close_cap:
  "cap (fst (snd (range_Close c evs))) = cap c \<and>
   chan_closed (fst (snd (range_Close c evs))) = chan_closed c"
proof (induction c evs rule: range_Close.induct)
  case (1 c evs)
  then show ?case
    by (subst (1 2) range_Close.simps) (auto split: list.splits sum.splits)
qed

lemma Acquire_frame:
  "cap (resources (pool (snd (Acquire s)))) = cap (resources (pool s)) \<and>
   factory (pool (snd (Acquire s))) = factory (pool s)"
  by (auto simp: Acquire_def select_recv_def Let_def split: list.splits prod.splits)

lemma Release_frame:
  "cap (resources (pool (snd (Release r s)))) = cap (resources (pool s)) \<and>
   factory (pool (snd (Release r s))) = factory (pool s)"
  by (auto simp: Release_def Lock_def Unlock_def select_send_def call_Close_def Let_def
      split: option.splits)

lemma Close_frame:
  "cap (resources (pool (snd (Close s)))) = cap (resources (pool s)) \<and>
   factory (pool (snd (Close s))) = factory (pool s)"
  using range_Close_cap [of "(resources (pool s))\<lparr>chan_closed := True\<rparr>"
      "events s @ [Log ''Closing pool..'']"]
  by (auto simp: Close_def Lock_def Unlock_def close_chan_def Let_def split: prod.splits)

lemma step_frame:
  "cap (resources (pool (step a s))) = cap (resources (pool s)) \<and>
   factory (pool (step a s)) = factory (pool s)"
  by (cases a) (simp_all add: Acquire_frame Release_frame Close_frame)

lemma exec_frame:
  "cap (resources (pool (exec ops s))) = cap (resources (pool s)) \<and>
   factory (pool (exec ops s)) = factory (pool s)"
  by (induction ops arbitrary: s) (simp_all add: exec_Nil exec_Cons step_frame)

section \<open>Executions of a closed pool\<close>

lemma closed_step:
  assumes "\<not> m (pool s)" and "closed (pool s)"
  shows "\<not> m (pool (step a s)) \<and> closed (pool (step a s)) \<and>
         suffix (buf (resources (pool (step a s)))) (buf (resources (pool s)))"
proof (cases a)
  case OpAcquire
  show ?thesis
  proof (cases "buf (resources (pool s))")
    case Nil
    with assms OpAcquire show ?thesis
      by (cases "chan_closed (resources (pool s))")
         (simp_all add: Acquire_drained Acquire_empty)
  next
    case (Cons x xs)
    with assms OpAcquire show ?thesis by (simp add: Acquire_buffered suffix_Cons)
  qed
next
  case (OpRelease r)
  with assms show ?thesis
    by (cases r) (simp_all add: Release_closed_nil Release_closed_res)
next
  case OpClose
  with assms show ?thesis by (simp add: Close_closed)
qed

lemma closed_exec:
  "\<not> m (pool s) \<Longrightarrow> closed (pool s) \<Longrightarrow>
   closed (pool (exec ops s)) \<and>
   suffix (buf (resources (pool (exec ops s)))) (buf (resources (pool s)))"
proof (induction ops arbitrary: s)
  case Nil
  then show ?case by (simp add: exec_Nil)
next
  case (Cons a ops)
  from closed_step [OF Cons.prems, of a]
  have st: "\<not> m (pool (step a s))" "closed (pool (step a s))"
    "suffix (buf (resources (pool (step a s)))) (buf (resources (pool s)))"
    by simp_all
  from Cons.IH [OF st(1,2)] st(3) show ?case
    by (auto simp: exec_Cons intro: suffix_order.trans)
qed

lemma New_settled: "New lim fn sz = Inr (Some p, e) \<Longrightarrow> settled (start p w)"
  by (auto simp: New_def make_chan_def start_def pool_inv_def settled_def unat_gt_0
      split: if_splits)

lemma Acquire_settled:
  assumes "settled s"
  shows "settled (snd (Acquire s))"
proof (cases "buf (resources (pool s))")
  case Nil
  with assms show ?thesis
    by (cases "chan_closed (resources (pool s))")
       (simp_all add: Acquire_drained Acquire_empty pool_inv_def settled_def)
next
  case (Cons x xs)
  with assms show ?thesis by (simp add: Acquire_buffered pool_inv_def settled_def)
qed

lemma Release_settled:
  assumes "settled s"
  shows "settled (snd (Release r s))"
proof (cases "closed (pool s)")
  case True
  with assms show ?thesis
    by (cases r) (simp_all add: Release_closed_nil Release_closed_res pool_inv_def settled_def)
next
  case False
  show ?thesis
  proof (cases "length (buf (resources (pool s))) < cap (resources (pool s))")
    case True
    with assms False show ?thesis by (simp add: Release_room pool_inv_def settled_def)
  next
    case False
    with assms \<open>\<not> closed (pool s)\<close> show ?thesis
      by (cases r) (simp_all add: Release_full_nil Release_full_res pool_inv_def settled_def)
  qed
qed

lemma Close_returns_drained:
  assumes "settled s" and "Close s = (Inr (), s')"
  shows "drained s'"
proof (cases "closed (pool s)")
  case True
  with assms show ?thesis
    by (auto simp: settled_def pool_inv_def Close_closed drained_def)
next
  case False
  from closers_split [of "buf (resources (pool s))"] show ?thesis
  proof (elim disjE exE)
    fix xs
    assume "buf (resources (pool s)) = map Some xs"
    with assms False show ?thesis
      by (auto simp: settled_def pool_inv_def Close_open_resources drained_def)
  next
    fix xs rest
    assume "buf (resources (pool s)) = map Some xs @ None # rest"
    with assms False show ?thesis by (simp add: settled_def pool_inv_def Close_open_nil)
  qed
qed

lemma drained_settled: "drained s \<Longrightarrow> 0 < cap (resources (pool s)) \<Longrightarrow> settled s"
  by (simp add: drained_def settled_def pool_inv_def)

lemma Close_settled:
  assumes "settled s" and "fst (Close s) = Inr ()"
  shows "settled (snd (Close s))"
proof -
  from assms(2) have "Close s = (Inr (), snd (Close s))" by (simp add: prod_eq_iff)
  from Close_returns_drained [OF assms(1) this] have "drained (snd (Close s))" .
  moreover from assms(1) have "0 < cap (resources (pool (snd (Close s))))"
    by (simp add: Close_frame settled_def pool_inv_def)
  ultimately show ?thesis by (rule drained_settled)
qed

lemma drained_step:
  assumes "drained s"
  shows "drained (step a s) \<and> ext (step a s) = ext s \<and>
         count_list (events (step a s)) FactoryCall = count_list (events s) FactoryCall"
proof (cases a)
  case OpAcquire
  with assms show ?thesis by (simp add: drained_def Acquire_drained)
next
  case (OpRelease r)
  with assms show ?thesis
    by (cases r) (simp_all add: drained_def Release_closed_nil Release_closed_res)
next
  case OpClose
  with assms show ?thesis by (simp add: drained_def Close_closed)
qed

lemma drained_exec:
  "drained s \<Longrightarrow>
   drained (exec ops s) \<and> ext (exec ops s) = ext s \<and>
   count_list (events (exec ops s)) FactoryCall = count_list (events s) FactoryCall"
proof (induction ops arbitrary: s)
  case Nil
  then show ?case by (simp add: exec_Nil)
next
  case (Cons a ops)
  from drained_step [OF Cons.prems, of a] Cons.IH [of "step a s"] show ?case
    by (simp add: exec_Cons)
qed


lemma count_CloseCall: "count_list (map CloseCall xs) (CloseCall x) = count_list xs x"
  by (induction xs) simp_all

section \<open>The buffer is first in, first out\<close>

lemma fifo_Acquire:
  assumes "is_open s" and "buf (resources (pool s)) = p # rest"
  shows "is_open (step OpAcquire s) \<and>
         buf (resources (pool (step OpAcquire s))) = rest \<and>
         events (step OpAcquire s) = events s \<and> ext (step OpAcquire s) = ext s"
  using assms by (simp add: is_open_def Acquire_buffered)

lemma fifo_Release:
  assumes "is_open s"
  shows "\<exists>added evs.
           is_open (step (OpRelease q) s) \<and>
           buf (resources (pool (step (OpRelease q) s))) = buf (resources (pool s)) @ added \<and>
           events (step (OpRelease q) s) = events s @ evs \<and> FactoryCall \<notin> set evs \<and>
           ext (step (OpRelease q) s) = ext s"
proof (cases "length (buf (resources (pool s))) < cap (resources (pool s))")
  case True
  with assms have
    "is_open (step (OpRelease q) s) \<and>
     buf (resources (pool (step (OpRelease q) s))) = buf (resources (pool s)) @ [q] \<and>
     events (step (OpRelease q) s) = events s @ [Log ''Release: In queue''] \<and>
     FactoryCall \<notin> set [Log ''Release: In queue''] \<and>
     ext (step (OpRelease q) s) = ext s"
    by (simp add: is_open_def Release_room)
  then show ?thesis by blast
next
  case False
  show ?thesis
  proof (cases q)
    case None
    with assms False have
      "is_open (step (OpRelease q) s) \<and>
       buf (resources (pool (step (OpRelease q) s))) = buf (resources (pool s)) @ [] \<and>
       events (step (OpRelease q) s) = events s @ [Log ''Release: Closing''] \<and>
       FactoryCall \<notin> set [Log ''Release: Closing''] \<and>
       ext (step (OpRelease q) s) = ext s"
      by (simp add: is_open_def Release_full_nil)
    then show ?thesis by blast
  next
    case (Some x)
    with assms False have
      "is_open (step (OpRelease q) s) \<and>
       buf (resources (pool (step (OpRelease q) s))) = buf (resources (pool s)) @ [] \<and>
       events (step (OpRelease q) s) = events s @ [Log ''Release: Closing'', CloseCall x] \<and>
       FactoryCall \<notin> set [Log ''Release: Closing'', CloseCall x] \<and>
       ext (step (OpRelease q) s) = ext s"
      by (simp add: is_open_def Release_full_res)
    then show ?thesis by blast
  qed
qed

lemma fifo_exec:
  assumes "is_open s" and "buf (resources (pool s)) = pre @ r # post"
    and "OpClose \<notin> set ops" and "count_list ops OpAcquire = length pre"
  shows "\<exists>post' evs.
           buf (resources (pool (exec ops s))) = r # post' \<and>
           events (exec ops s) = events s @ evs \<and> FactoryCall \<notin> set evs \<and>
           ext (exec ops s) = ext s"
  using assms
proof (induction ops arbitrary: s pre post)
  case Nil
  then show ?case by (simp add: exec_Nil)
next
  case (Cons a ops)
  show ?case
  proof (cases a)
    case OpAcquire
    with Cons.prems obtain p pre' where pre: "pre = p # pre'"
      by (cases pre) auto
    with Cons.prems have b: "buf (resources (pool s)) = p # (pre' @ r # post)" by simp
    from fifo_Acquire [OF Cons.prems(1) b]
    have st: "is_open (step OpAcquire s)"
      "buf (resources (pool (step OpAcquire s))) = pre' @ r # post"
      "events (step OpAcquire s) = events s" "ext (step OpAcquire s) = ext s"
      by simp_all
    from Cons.prems OpAcquire pre
    have rest: "OpClose \<notin> set ops" "count_list ops OpAcquire = length pre'" by simp_all
    from Cons.IH [OF st(1,2) rest] st(3,4) OpAcquire show ?thesis
      by (simp add: exec_Cons)
  next
    case (OpRelease q)
    from fifo_Release [OF Cons.prems(1), of q] obtain added evs0 where
      st: "is_open (step (OpRelease q) s)"
        "buf (resources (pool (step (OpRelease q) s))) = buf (resources (pool s)) @ added"
        "events (step (OpRelease q) s) = events s @ evs0" "FactoryCall \<notin> set evs0"
        "ext (step (OpRelease q) s) = ext s"
      by blast
    from st(2) Cons.prems(2)
    have b: "buf (resources (pool (step (OpRelease q) s))) = pre @ r # (post @ added)"
      by simp
    from Cons.prems OpRelease
    have rest: "OpClose \<notin> set ops" "count_list ops OpAcquire = length pre" by simp_all
    from Cons.IH [OF st(1) b rest] obtain post' evs where
      "buf (resources (pool (exec ops (step (OpRelease q) s)))) = r # post'"
      "events (exec ops (step (OpRelease q) s)) = events (step (OpRelease q) s) @ evs"
      "FactoryCall \<notin> set evs"
      "ext (exec ops (step (OpRelease q) s)) = ext (step (OpRelease q) s)"
      by blast
    with st(3,4,5) OpRelease have
      "buf (resources (pool (exec (a # ops) s))) = r # post' \<and>
       events (exec (a # ops) s) = events s @ (evs0 @ evs) \<and>
       FactoryCall \<notin> set (evs0 @ evs) \<and> ext (exec (a # ops) s) = ext s"
      by (simp add: exec_Cons)
    then show ?thesis by blast
  next
    case OpClose
    with Cons.prems show ?thesis by simp
  qed
qed

lemma Release_then_Acquire:
  assumes "pool_inv s" and "\<not> closed (pool s)"
    and "length (buf (resources (pool s))) < cap (resources (pool s))"
    and "OpClose \<notin> set ops"
    and "count_list ops OpAcquire = length (buf (resources (pool s)))"
  shows "fst (Release r s) = Inr () \<and>
         (\<exists>evs. fst (Acquire (exec ops (snd (Release r s)))) = (r, None) \<and>
                events (snd (Acquire (exec ops (snd (Release r s))))) = events s @ evs \<and>
                FactoryCall \<notin> set evs \<and>
                ext (snd (Acquire (exec ops (snd (Release r s))))) = ext s)"
proof -
  let ?s1 = "snd (Release r s)"
  from assms(1-3) have rel:
    "Release r s =
       (Inr (), s\<lparr>pool := (pool s)\<lparr>resources :=
                       (resources (pool s))\<lparr>buf := buf (resources (pool s)) @ [r]\<rparr>\<rparr>,
                   events := events s @ [Log ''Release: In queue'']\<rparr>)"
    by (simp add: pool_inv_def Release_room)
  with assms(1,2) have s1: "is_open ?s1"
    "buf (resources (pool ?s1)) = buf (resources (pool s)) @ r # []"
    "events ?s1 = events s @ [Log ''Release: In queue'']" "ext ?s1 = ext s"
    by (simp_all add: pool_inv_def is_open_def)
  from fifo_exec [OF s1(1,2) assms(4,5)] obtain post' evs where ex:
    "buf (resources (pool (exec ops ?s1))) = r # post'"
    "events (exec ops ?s1) = events ?s1 @ evs" "FactoryCall \<notin> set evs"
    "ext (exec ops ?s1) = ext ?s1"
    by blast
  from Acquire_buffered [OF ex(1)] ex(2,3,4) s1(3,4)
  have "fst (Acquire (exec ops ?s1)) = (r, None) \<and>
        events (snd (Acquire (exec ops ?s1))) = events s @ (Log ''Release: In queue'' # evs) \<and>
        FactoryCall \<notin> set (Log ''Release: In queue'' # evs) \<and>
        ext (snd (Acquire (exec ops ?s1))) = ext s"
    by simp
  then have "\<exists>evs. fst (Acquire (exec ops ?s1)) = (r, None) \<and>
        events (snd (Acquire (exec ops ?s1))) = events s @ evs \<and>
        FactoryCall \<notin> set evs \<and> ext (snd (Acquire (exec ops ?s1))) = ext s"
    by (rule exI)
  with rel show ?thesis by simp
qed

section \<open>The example states, evaluated\<close>

lemmas eval_defs =
  fresh_def start_def example_pool_def exec_def Acquire_def select_recv_def Release_def
  Lock_def Unlock_def select_send_def call_Close_def createConnection_def Close_def
  close_chan_def range_Close.simps

lemma fresh_eval:
  "fresh = \<lparr>pool = \<lparr>m = False, resources = \<lparr>buf = [], cap = 2, chan_closed = False\<rparr>,
                    factory = createConnection, closed = False\<rparr>,
            ext = 0, events = []\<rparr>"
  by (simp add: fresh_def start_def example_pool_def)

lemma busy_eval:
  "busy = \<lparr>pool = \<lparr>m = False,
                    resources = \<lparr>buf = [Some 1, Some 2], cap = 2, chan_closed = False\<rparr>,
                    factory = createConnection, closed = False\<rparr>,
           ext = 2,
           events = [Log ''Acquire: New resource'', FactoryCall,
                     Log ''Acquire: New resource'', FactoryCall,
                     Log ''Release: In queue'', Log ''Release: In queue'']\<rparr>"
  by (simp add: busy_def eval_defs)
lemma shut_eval:
  "shut = \<lparr>pool = \<lparr>m = False,
                    resources = \<lparr>buf = [], cap = 2, chan_closed = True\<rparr>,
                    factory = createConnection, closed = True\<rparr>,
           ext = 2,
           events = [Log ''Acquire: New resource'', FactoryCall,
                     Log ''Acquire: New resource'', FactoryCall,
                     Log ''Release: In queue'', Log ''Release: In queue'',
                     Log ''Closing pool..'', CloseCall 1, CloseCall 2]\<rparr>"
  by (simp add: shut_def busy_eval Close_def Lock_def Unlock_def close_chan_def
      range_Close.simps call_Close_def)

lemma full1_eval:
  "full1 = \<lparr>pool = \<lparr>m = False,
                    resources = \<lparr>buf = [None, Some 7], cap = 2, chan_closed = False\<rparr>,
                    factory = createConnection, closed = False\<rparr>,
           ext = 0,
           events = [Log ''Release: In queue'', Log ''Release: In queue'']\<rparr>"
  by (simp add: full1_def eval_defs)

lemma half_eval:
  "half = \<lparr>pool = \<lparr>m = False,
                    resources = \<lparr>buf = [Some 1], cap = 2, chan_closed = False\<rparr>,
                    factory = createConnection, closed = False\<rparr>,
           ext = 2,
           events = [Log ''Acquire: New resource'', FactoryCall,
                     Log ''Acquire: New resource'', FactoryCall,
                     Log ''Release: In queue'']\<rparr>"
  by (simp add: half_def eval_defs)

lemma Close_busy: "Close busy = (Inr (), shut)"
  by (simp add: shut_eval busy_eval Close_def Lock_def Unlock_def close_chan_def
      range_Close.simps call_Close_def)

section \<open>The constructor\<close>

text \<open>
  C6, as amended. \<^verbatim>\<open>New\<close> with a size that is at most zero, which for a \<^verbatim>\<open>uint\<close> is zero,
  returns no pool and the error of an invalid size. With a size above zero that \<^verbatim>\<open>make\<close>
  accepts (not negative as an \<^verbatim>\<open>int\<close>, and within the bound of the allocator) it returns, with
  a nil error, a pool that is not closed, whose mutex is free, whose buffer is empty and
  bounded by the size, and that holds the given factory. With a size above zero that \<^verbatim>\<open>make\<close>
  does not accept, \<^verbatim>\<open>New\<close> panics and returns nothing. \<^verbatim>\<open>New\<close> is a function of its arguments
  alone: it reads and changes nothing else.
\<close>

theorem New_validates:
  "(sz \<le> 0 \<longrightarrow> New lim fn sz = Inr (None, Some ErrInvalidSize)) \<and>
   (0 < sz \<and> 0 \<le> sint sz \<and> unat sz \<le> lim \<longrightarrow>
      New lim fn sz =
        Inr (Some \<lparr>m = False, resources = \<lparr>buf = [], cap = unat sz, chan_closed = False\<rparr>,
                    factory = fn, closed = False\<rparr>, None)) \<and>
   (0 < sz \<and> (sint sz < 0 \<or> lim < unat sz) \<longrightarrow>
      New lim fn sz = Inl PanicMakechanSizeOutOfRange)"
  by (auto simp: New_def make_chan_def)

theorem New_validates_witness:
  "New chan_limit_64 createConnection (0 :: 64 word) = Inr (None, Some ErrInvalidSize) \<and>
   0 < pooledResources \<and> 0 \<le> sint pooledResources \<and> unat pooledResources \<le> chan_limit_64 \<and>
   New chan_limit_64 createConnection pooledResources = Inr (Some example_pool, None) \<and>
   (0 :: 64 word) < 2 ^ 44 + 1 \<and> chan_limit_64 < unat (2 ^ 44 + 1 :: 64 word) \<and>
   New chan_limit_64 createConnection (2 ^ 44 + 1 :: 64 word) = Inl PanicMakechanSizeOutOfRange"
  using New_validates [of "0 :: 64 word" chan_limit_64 createConnection]
    New_validates [of pooledResources chan_limit_64 createConnection]
    New_validates [of "2 ^ 44 + 1 :: 64 word" chan_limit_64 createConnection]
  by (simp add: pooledResources_def example_pool_def chan_limit_64_def)

text \<open>
  C6 as it was stated fails for a size above zero that \<^verbatim>\<open>make\<close> does not accept: \<open>2 ^ 63\<close> is
  negative as an \<^verbatim>\<open>int\<close>, and \<^verbatim>\<open>New\<close> panics there instead of returning a pool.
\<close>

theorem New_validates_counterexample:
  "(0 :: 64 word) < 2 ^ 63 \<and>
   New chan_limit_64 createConnection (2 ^ 63 :: 64 word) = Inl PanicMakechanSizeOutOfRange"
  by (simp add: New_def make_chan_def)

section \<open>Acquire\<close>

text \<open>
  C7. In a state of a sequential program whose pool is not closed, \<^verbatim>\<open>Acquire\<close> on an empty
  buffer logs one line, calls the factory once on the current world and returns the
  factory's pair of results as it is, error included: nothing is wrapped and nothing is
  tried again. When the buffer holds a value, \<^verbatim>\<open>Acquire\<close> returns the oldest one with a nil
  error and changes nothing but the buffer: the factory is not called.
\<close>

theorem Acquire_factory:
  assumes "pool_inv s" and "\<not> closed (pool s)"
  shows "(buf (resources (pool s)) = [] \<longrightarrow>
            Acquire s =
              (fst (factory (pool s) (ext s)),
               s\<lparr>ext := snd (factory (pool s) (ext s)),
                 events := events s @ [Log ''Acquire: New resource'', FactoryCall]\<rparr>)) \<and>
         (\<forall>x xs. buf (resources (pool s)) = x # xs \<longrightarrow>
            Acquire s =
              ((x, None),
               s\<lparr>pool := (pool s)\<lparr>resources := (resources (pool s))\<lparr>buf := xs\<rparr>\<rparr>\<rparr>))"
  using assms by (simp add: pool_inv_def Acquire_empty Acquire_buffered)

theorem Acquire_factory_witness:
  "pool_inv fresh \<and> \<not> closed (pool fresh) \<and> buf (resources (pool fresh)) = [] \<and>
   Acquire fresh =
     ((Some 1, None),
      fresh\<lparr>ext := 1, events := [Log ''Acquire: New resource'', FactoryCall]\<rparr>) \<and>
   pool_inv busy \<and> \<not> closed (pool busy) \<and>
   buf (resources (pool busy)) = [Some 1, Some 2] \<and>
   Acquire busy =
     ((Some 1, None),
      busy\<lparr>pool := (pool busy)\<lparr>resources := (resources (pool busy))\<lparr>buf := [Some 2]\<rparr>\<rparr>\<rparr>)"
  using Acquire_factory [of fresh] Acquire_factory [of busy]
  by (simp add: fresh_eval busy_eval pool_inv_def createConnection_def)

section \<open>Close\<close>

text \<open>
  C3, as amended. Whenever the mutex is free, the pool is closed after a call of \<^verbatim>\<open>Close\<close>, and
  a second call returns normally and changes nothing but the log, to which it adds the line
  that the pool was already closed: it calls no \<^verbatim>\<open>Close\<close> method. For a pool that was open,
  in a state of a sequential program, and whose buffer held the resources \<open>xs\<close> and no nil,
  the first call returns normally with the flag set, the channel closed and the buffer
  empty, after closing the buffered resources in the order of the buffer, once for each
  place a resource had in it; the two calls together make this one transition, and the
  second leaves the pool as the first left it.
\<close>

theorem Close_twice:
  assumes "\<not> m (pool s)"
  shows "closed (pool (snd (Close s))) \<and>
         Close (snd (Close s)) =
           (Inr (), (snd (Close s))
                      \<lparr>events := events (snd (Close s)) @ [Log ''Pool already closed.'']\<rparr>) \<and>
         (pool_inv s \<and> \<not> closed (pool s) \<and> buf (resources (pool s)) = map Some xs \<longrightarrow>
            Close s =
              (Inr (),
               s\<lparr>pool := (pool s)\<lparr>closed := True,
                      resources := (resources (pool s))\<lparr>buf := [], chan_closed := True\<rparr>\<rparr>,
                 events := events s @ Log ''Closing pool..'' # map CloseCall xs\<rparr>) \<and>
            pool (snd (Close (snd (Close s)))) = pool (snd (Close s)) \<and>
            events (snd (Close (snd (Close s)))) =
              events s @ Log ''Closing pool..'' # map CloseCall xs @
              [Log ''Pool already closed.''])"
proof -
  from assms have marks: "closed (pool (snd (Close s)))" "\<not> m (pool (snd (Close s)))"
    using Close_marks [of s] by simp_all
  then have second: "Close (snd (Close s)) =
      (Inr (), (snd (Close s))
                 \<lparr>events := events (snd (Close s)) @ [Log ''Pool already closed.'']\<rparr>)"
    by (simp add: Close_closed)
  have "Close s =
          (Inr (),
           s\<lparr>pool := (pool s)\<lparr>closed := True,
                  resources := (resources (pool s))\<lparr>buf := [], chan_closed := True\<rparr>\<rparr>,
             events := events s @ Log ''Closing pool..'' # map CloseCall xs\<rparr>) \<and>
        pool (snd (Close (snd (Close s)))) = pool (snd (Close s)) \<and>
        events (snd (Close (snd (Close s)))) =
          events s @ Log ''Closing pool..'' # map CloseCall xs @ [Log ''Pool already closed.'']"
    if "pool_inv s" "\<not> closed (pool s)" "buf (resources (pool s)) = map Some xs"
    using that second by (simp add: pool_inv_def Close_open_resources)
  with marks second show ?thesis by blast
qed

theorem Close_twice_witness:
  "\<not> m (pool busy) \<and> pool_inv busy \<and> \<not> closed (pool busy) \<and>
   buf (resources (pool busy)) = map Some [1, 2] \<and>
   closed (pool (snd (Close busy))) \<and>
   Close busy = (Inr (), shut) \<and>
   buf (resources (pool shut)) = [] \<and> chan_closed (resources (pool shut)) \<and>
   Close shut = (Inr (), shut\<lparr>events := events shut @ [Log ''Pool already closed.'']\<rparr>) \<and>
   events (snd (Close shut)) =
     events busy @ [Log ''Closing pool..'', CloseCall 1, CloseCall 2,
                    Log ''Pool already closed.'']"
proof -
  have h: "\<not> m (pool busy)" "pool_inv busy" "\<not> closed (pool busy)"
    "buf (resources (pool busy)) = map Some [1, 2]"
    by (simp_all add: busy_eval pool_inv_def)
  have sh: "buf (resources (pool shut)) = []" "chan_closed (resources (pool shut))"
    by (simp_all add: shut_eval)
  from Close_twice [OF h(1), of "[1, 2]"] h(2,3,4)
  have 1: "closed (pool (snd (Close busy)))"
    and 2: "Close (snd (Close busy)) =
      (Inr (), (snd (Close busy))
                 \<lparr>events := events (snd (Close busy)) @ [Log ''Pool already closed.'']\<rparr>)"
    and 3: "events (snd (Close (snd (Close busy)))) =
      events busy @ Log ''Closing pool..'' # map CloseCall [1, 2] @
      [Log ''Pool already closed.'']"
    by blast+
  from 1 2 3 h sh show ?thesis by (simp add: Close_busy)
qed

text \<open>
  C3 as it was stated fails when nil is in the buffer: after nil and then connection 7 were
  released into the fresh pool, the first \<^verbatim>\<open>Close\<close> panics at nil and the second returns
  without a further step; after the two calls connection 7 is still in the buffer and its
  \<^verbatim>\<open>Close\<close> method has not been called, so no drain was completed.
\<close>

theorem Close_twice_counterexample:
  "pool_inv full1 \<and> \<not> closed (pool full1) \<and>
   fst (Close full1) = Inl PanicNilDereference \<and>
   fst (Close (snd (Close full1))) = Inr () \<and>
   buf (resources (pool (snd (Close (snd (Close full1)))))) = [Some 7] \<and>
   CloseCall 7 \<notin> set (events (snd (Close (snd (Close full1)))))"
  by (simp add: full1_eval pool_inv_def Close_def Lock_def Unlock_def close_chan_def
      range_Close.simps call_Close_def)

section \<open>Release\<close>

text \<open>
  C4. In a state of a sequential program whose pool is not closed and whose buffer is full,
  \<^verbatim>\<open>Release\<close> of a resource \<open>x\<close> returns normally after one call of the \<^verbatim>\<open>Close\<close> method of
  \<open>x\<close>, and \<^verbatim>\<open>Release\<close> of any value, nil included, does not wait and leaves the pool, and so
  the buffer and its size, as they were. Whatever calls follow, the buffer never holds more
  values than its capacity.
\<close>

theorem Release_overflow:
  assumes "pool_inv s"
  shows "(\<not> closed (pool s) \<and>
          length (buf (resources (pool s))) = cap (resources (pool s)) \<longrightarrow>
            Release (Some x) s =
              (Inr (), s\<lparr>events := events s @ [Log ''Release: Closing'', CloseCall x]\<rparr>) \<and>
            fst (Release r s) \<noteq> Inl BlockedForever \<and>
            pool (snd (Release r s)) = pool s) \<and>
         (\<forall>ops. length (buf (resources (pool (exec ops s)))) \<le> cap (resources (pool s)))"
proof -
  have "Release (Some x) s =
          (Inr (), s\<lparr>events := events s @ [Log ''Release: Closing'', CloseCall x]\<rparr>) \<and>
        fst (Release r s) \<noteq> Inl BlockedForever \<and> pool (snd (Release r s)) = pool s"
    if "\<not> closed (pool s)" "length (buf (resources (pool s))) = cap (resources (pool s))"
    using that assms
    by (cases r) (simp_all add: pool_inv_def Release_full_nil Release_full_res)
  moreover have "length (buf (resources (pool (exec ops s)))) \<le> cap (resources (pool s))"
    for ops
    using exec_inv [OF assms, of ops] exec_frame [of ops s] by (simp add: pool_inv_def)
  ultimately show ?thesis by blast
qed

theorem Release_overflow_witness:
  "pool_inv busy \<and> \<not> closed (pool busy) \<and>
   length (buf (resources (pool busy))) = cap (resources (pool busy)) \<and>
   Release (Some 3) busy =
     (Inr (), busy\<lparr>events := events busy @ [Log ''Release: Closing'', CloseCall 3]\<rparr>) \<and>
   fst (Release (Some 3) busy) \<noteq> Inl BlockedForever \<and>
   pool (snd (Release (Some 3) busy)) = pool busy \<and>
   length (buf (resources (pool (exec [OpRelease (Some 3), OpRelease (Some 4)] busy)))) \<le> 2"
  using Release_overflow [of busy 3 "Some 3"]
  by (simp add: busy_eval pool_inv_def)

text \<open>
  C5. Once the pool is closed (and the mutex free), \<^verbatim>\<open>Release\<close> of a resource \<open>x\<close> calls the
  \<^verbatim>\<open>Close\<close> method of \<open>x\<close> at once and returns; \<^verbatim>\<open>Release\<close> of any value leaves the pool, and so
  the buffer, as it was. Whatever calls follow, the pool stays closed and the buffer only
  loses values: it is always a suffix of what it was, so nothing is ever written to it.
\<close>

theorem Release_after_close:
  assumes "\<not> m (pool s)" and "closed (pool s)"
  shows "Release (Some x) s = (Inr (), s\<lparr>events := events s @ [CloseCall x]\<rparr>) \<and>
         pool (snd (Release r s)) = pool s \<and>
         (\<forall>ops. closed (pool (exec ops s)) \<and>
                suffix (buf (resources (pool (exec ops s)))) (buf (resources (pool s))))"
proof -
  from assms have "pool (snd (Release r s)) = pool s"
    by (cases r) (simp_all add: Release_closed_nil Release_closed_res)
  with assms closed_exec [OF assms] show ?thesis
    by (simp add: Release_closed_res)
qed

theorem Release_after_close_witness:
  "\<not> m (pool shut) \<and> closed (pool shut) \<and>
   Release (Some 9) shut = (Inr (), shut\<lparr>events := events shut @ [CloseCall 9]\<rparr>) \<and>
   pool (snd (Release (Some 9) shut)) = pool shut \<and>
   closed (pool (exec [OpRelease (Some 9), OpAcquire, OpClose] shut)) \<and>
   buf (resources (pool (exec [OpRelease (Some 9), OpAcquire, OpClose] shut))) = []"
  using Release_after_close [of shut 9 "Some 9"]
  by (simp add: shut_eval)

text \<open>
  C10. \<^verbatim>\<open>Release\<close> has no check for nil. On a closed pool \<^verbatim>\<open>Release(nil)\<close> panics at the call
  of \<^verbatim>\<open>Close\<close> on nil, and so it does, after the log line, on an open pool whose buffer is
  full. On an open pool with room it returns normally and nil is the newest value of the
  buffer; once the values that were buffered before it have been acquired, and as long as
  no \<^verbatim>\<open>Close\<close> comes between, \<^verbatim>\<open>Acquire\<close> returns nil as the resource, with a nil error.
\<close>

theorem Release_nil:
  assumes "pool_inv s"
  shows "(closed (pool s) \<longrightarrow> Release None s = (Inl PanicNilDereference, s)) \<and>
         (\<not> closed (pool s) \<and>
          length (buf (resources (pool s))) = cap (resources (pool s)) \<longrightarrow>
            Release None s =
              (Inl PanicNilDereference,
               s\<lparr>events := events s @ [Log ''Release: Closing'']\<rparr>)) \<and>
         (\<not> closed (pool s) \<and>
          length (buf (resources (pool s))) < cap (resources (pool s)) \<longrightarrow>
            Release None s =
              (Inr (),
               s\<lparr>pool := (pool s)\<lparr>resources :=
                      (resources (pool s))\<lparr>buf := buf (resources (pool s)) @ [None]\<rparr>\<rparr>,
                 events := events s @ [Log ''Release: In queue'']\<rparr>) \<and>
            (\<forall>ops. OpClose \<notin> set ops \<and>
                   count_list ops OpAcquire = length (buf (resources (pool s))) \<longrightarrow>
                   fst (Acquire (exec ops (snd (Release None s)))) = (None, None)))"
proof -
  have "fst (Acquire (exec ops (snd (Release None s)))) = (None, None)"
    if "\<not> closed (pool s)" "length (buf (resources (pool s))) < cap (resources (pool s))"
      "OpClose \<notin> set ops" "count_list ops OpAcquire = length (buf (resources (pool s)))"
    for ops
    using Release_then_Acquire [OF assms that, of None] by blast
  with assms show ?thesis
    by (simp add: pool_inv_def Release_closed_nil Release_full_nil Release_room)
qed

theorem Release_nil_witness:
  "pool_inv shut \<and> closed (pool shut) \<and> Release None shut = (Inl PanicNilDereference, shut) \<and>
   pool_inv busy \<and> \<not> closed (pool busy) \<and>
   length (buf (resources (pool busy))) = cap (resources (pool busy)) \<and>
   Release None busy =
     (Inl PanicNilDereference, busy\<lparr>events := events busy @ [Log ''Release: Closing'']\<rparr>) \<and>
   pool_inv half \<and> \<not> closed (pool half) \<and>
   length (buf (resources (pool half))) < cap (resources (pool half)) \<and>
   buf (resources (pool (snd (Release None half)))) = [Some 1, None] \<and>
   OpClose \<notin> set [OpAcquire :: 32 word op] \<and>
   count_list [OpAcquire :: 32 word op] OpAcquire = length (buf (resources (pool half))) \<and>
   fst (Acquire (exec [OpAcquire] (snd (Release None half)))) = (None, None)"
proof -
  have sh: "pool_inv shut" "closed (pool shut)"
    by (simp_all add: shut_eval pool_inv_def)
  have bu: "pool_inv busy" "\<not> closed (pool busy)"
    "length (buf (resources (pool busy))) = cap (resources (pool busy))"
    by (simp_all add: busy_eval pool_inv_def)
  have ha: "pool_inv half" "\<not> closed (pool half)"
    "length (buf (resources (pool half))) < cap (resources (pool half))"
    by (simp_all add: half_eval pool_inv_def)
  have ops: "OpClose \<notin> set [OpAcquire :: 32 word op]"
    "count_list [OpAcquire :: 32 word op] OpAcquire = length (buf (resources (pool half)))"
    by (simp_all add: half_eval)
  from Release_nil [OF sh(1)] sh(2)
  have 1: "Release None shut = (Inl PanicNilDereference, shut)" by blast
  from Release_nil [OF bu(1)] bu(2,3)
  have 2: "Release None busy =
      (Inl PanicNilDereference, busy\<lparr>events := events busy @ [Log ''Release: Closing'']\<rparr>)"
    by blast
  from Release_nil [OF ha(1)] ha(2,3)
  have 3: "Release None half =
      (Inr (),
       half\<lparr>pool := (pool half)\<lparr>resources :=
              (resources (pool half))\<lparr>buf := buf (resources (pool half)) @ [None]\<rparr>\<rparr>,
            events := events half @ [Log ''Release: In queue'']\<rparr>)"
    by blast
  from Release_nil [OF ha(1)] ha(2,3) ops
  have 4: "fst (Acquire (exec [OpAcquire] (snd (Release None half)))) = (None, None)"
    by blast
  from 3 have 5: "buf (resources (pool (snd (Release None half)))) = [Some 1, None]"
    by (simp add: half_eval)
  from sh bu ha ops 1 2 4 5 show ?thesis by blast
qed

section \<open>Release, then Acquire\<close>

text \<open>
  C8. Let a value \<open>r\<close> be released into an open pool with room, in a state of a sequential
  program, and let any calls of \<^verbatim>\<open>Acquire\<close> and \<^verbatim>\<open>Release\<close> follow, none of \<^verbatim>\<open>Close\<close>, among them
  as many calls of \<^verbatim>\<open>Acquire\<close> as values were buffered before \<open>r\<close>. Then the next \<^verbatim>\<open>Acquire\<close>
  returns \<open>r\<close> with a nil error, and from the release up to its return the factory has not
  been called: the world of the factory and the number of its calls are what they were.
  With an empty buffer at the release, \<open>r\<close> is the value of the very next \<^verbatim>\<open>Acquire\<close>.
\<close>

theorem Release_Acquire_roundtrip:
  assumes "pool_inv s" and "\<not> closed (pool s)"
    and "length (buf (resources (pool s))) < cap (resources (pool s))"
    and "OpClose \<notin> set ops"
    and "count_list ops OpAcquire = length (buf (resources (pool s)))"
  shows "fst (Release r s) = Inr () \<and>
         fst (Acquire (exec ops (snd (Release r s)))) = (r, None) \<and>
         ext (snd (Acquire (exec ops (snd (Release r s))))) = ext s \<and>
         count_list (events (snd (Acquire (exec ops (snd (Release r s)))))) FactoryCall =
           count_list (events s) FactoryCall"
proof -
  from Release_then_Acquire [OF assms, of r] obtain evs where
    "fst (Release r s) = Inr ()"
    "fst (Acquire (exec ops (snd (Release r s)))) = (r, None)"
    "events (snd (Acquire (exec ops (snd (Release r s))))) = events s @ evs"
    "FactoryCall \<notin> set evs"
    "ext (snd (Acquire (exec ops (snd (Release r s))))) = ext s"
    by blast
  then show ?thesis by (simp add: count_list_0_iff)
qed

theorem Release_Acquire_roundtrip_witness:
  "pool_inv half \<and> \<not> closed (pool half) \<and>
   length (buf (resources (pool half))) < cap (resources (pool half)) \<and>
   OpClose \<notin> set [OpRelease (Some 9), OpAcquire :: 32 word op] \<and>
   count_list [OpRelease (Some 9), OpAcquire :: 32 word op] OpAcquire =
     length (buf (resources (pool half))) \<and>
   fst (Release (Some 2) half) = Inr () \<and>
   fst (Acquire (exec [OpRelease (Some 9), OpAcquire] (snd (Release (Some 2) half)))) =
     (Some 2, None) \<and>
   ext (snd (Acquire (exec [OpRelease (Some 9), OpAcquire] (snd (Release (Some 2) half))))) = 2 \<and>
   count_list
     (events (snd (Acquire (exec [OpRelease (Some 9), OpAcquire] (snd (Release (Some 2) half))))))
     FactoryCall = 2"
  using Release_Acquire_roundtrip [of half "[OpRelease (Some 9), OpAcquire]" "Some 2"]
  by (simp add: half_eval pool_inv_def)

section \<open>Close, and Acquire after it\<close>

text \<open>
  C2, as amended. In a state of a sequential program whose pool is not closed and whose
  buffer holds the resources \<open>xs\<close> and no nil, \<^verbatim>\<open>Close\<close> returns normally; it has set the flag,
  closed the channel and emptied the buffer, and after its log line it has called the
  \<^verbatim>\<open>Close\<close> method of the buffered resources in the order of the buffer, once for each place a
  resource had in the buffer. The channel is closed before the loop runs: on the open
  channel the loop would never end.
\<close>

theorem Close_drains:
  assumes "pool_inv s" and "\<not> closed (pool s)"
    and "buf (resources (pool s)) = map Some xs"
  shows "Close s =
           (Inr (), s\<lparr>pool := (pool s)\<lparr>closed := True,
                           resources := (resources (pool s))\<lparr>buf := [], chan_closed := True\<rparr>\<rparr>,
                       events := events s @ Log ''Closing pool..'' # map CloseCall xs\<rparr>) \<and>
         (\<forall>x. count_list (drop (length (events s)) (events (snd (Close s)))) (CloseCall x) =
               count_list xs x) \<and>
         fst (range_Close (resources (pool s)) evs) = Inl BlockedForever"
  using assms
  by (simp add: pool_inv_def Close_open_resources count_CloseCall range_Close_open)

theorem Close_drains_witness:
  "pool_inv busy \<and> \<not> closed (pool busy) \<and> buf (resources (pool busy)) = map Some [1, 2] \<and>
   Close busy = (Inr (), shut) \<and>
   count_list (drop (length (events busy)) (events (snd (Close busy)))) (CloseCall 1) = 1 \<and>
   count_list (drop (length (events busy)) (events (snd (Close busy)))) (CloseCall 2) = 1 \<and>
   fst (range_Close (resources (pool busy)) []) = Inl BlockedForever"
  using Close_drains [of busy "[1, 2]" "[]"]
  by (simp add: busy_eval shut_eval pool_inv_def)

text \<open>
  C2 as it was stated fails when nil is in the buffer: after nil and then connection 7 were
  released into the fresh pool, \<^verbatim>\<open>Close\<close> panics at nil, connection 7 stays in the buffer and
  its \<^verbatim>\<open>Close\<close> method is never called.
\<close>

theorem Close_drains_counterexample:
  "pool_inv full1 \<and> \<not> closed (pool full1) \<and>
   buf (resources (pool full1)) = [None, Some 7] \<and>
   fst (Close full1) = Inl PanicNilDereference \<and>
   buf (resources (pool (snd (Close full1)))) = [Some 7] \<and>
   CloseCall 7 \<notin> set (events (snd (Close full1)))"
  by (simp add: full1_eval pool_inv_def Close_def Lock_def Unlock_def close_chan_def
      range_Close.simps call_Close_def)




text \<open>
  C9, as amended. After a \<^verbatim>\<open>Close\<close> that returned, in a state that calls returning normally can
  reach (so on a pool that was open, or closed with nothing left in its buffer),
  whatever calls of \<^verbatim>\<open>Acquire\<close>,
  \<^verbatim>\<open>Release\<close> and \<^verbatim>\<open>Close\<close> follow, a call of \<^verbatim>\<open>Acquire\<close> returns nil and \<^verbatim>\<open>ErrPoolClosed\<close> and
  changes nothing; the world of the factory and the number of factory calls stay what
  they were when \<^verbatim>\<open>Close\<close> returned.
\<close>

theorem Acquire_closed_forever:
  assumes "settled s" and "Close s = (Inr (), s')"
  shows "\<forall>ops. Acquire (exec ops s') = ((None, Some ErrPoolClosed), exec ops s') \<and>
               ext (exec ops s') = ext s' \<and>
               count_list (events (exec ops s')) FactoryCall =
                 count_list (events s') FactoryCall"
proof
  fix ops
  from Close_returns_drained [OF assms] have "drained s'" .
  from drained_exec [OF this, of ops] show
    "Acquire (exec ops s') = ((None, Some ErrPoolClosed), exec ops s') \<and>
     ext (exec ops s') = ext s' \<and>
     count_list (events (exec ops s')) FactoryCall = count_list (events s') FactoryCall"
    by (simp add: drained_def Acquire_drained)
qed

theorem Acquire_closed_forever_witness:
  "settled busy \<and> Close busy = (Inr (), shut) \<and>
   Acquire (exec [OpAcquire, OpRelease (Some 5), OpClose, OpAcquire] shut) =
     ((None, Some ErrPoolClosed), exec [OpAcquire, OpRelease (Some 5), OpClose, OpAcquire] shut) \<and>
   ext (exec [OpAcquire, OpRelease (Some 5), OpClose, OpAcquire] shut) = 2 \<and>
   count_list (events (exec [OpAcquire, OpRelease (Some 5), OpClose, OpAcquire] shut))
     FactoryCall = 2"
proof -
  have i: "settled busy"
    by (simp add: busy_eval settled_def pool_inv_def)
  from Acquire_closed_forever [OF i Close_busy] i Close_busy show ?thesis
    by (simp add: shut_eval)
qed

text \<open>
  C9 as it was stated fails after a \<^verbatim>\<open>Close\<close> that panicked: with nil and then connection 7 in
  the buffer the first \<^verbatim>\<open>Close\<close> panics at nil; a caller that recovers and calls \<^verbatim>\<open>Close\<close> again
  sees it return normally, and the next \<^verbatim>\<open>Acquire\<close> returns connection 7 with a nil error, not
  \<^verbatim>\<open>ErrPoolClosed\<close>.
\<close>

theorem Acquire_closed_forever_counterexample:
  "pool_inv (snd (Close full1)) \<and> closed (pool (snd (Close full1))) \<and>
   fst (Close (snd (Close full1))) = Inr () \<and>
   fst (Acquire (snd (Close (snd (Close full1))))) = (Some 7, None) \<and>
   fst (Acquire (snd (Close (snd (Close full1))))) \<noteq> (None, Some ErrPoolClosed)"
  by (simp add: full1_eval pool_inv_def Close_def Lock_def Unlock_def close_chan_def
      range_Close.simps call_Close_def Acquire_def select_recv_def)

end
